theory Spec2Isabelle
  imports Main "HOL-Library.Multiset"
begin

section \<open>The leftist tree of leftist_tree.cc\<close>

subsection \<open>Nodes\<close>

text \<open>
  A \<open>Node*\<close> is either \<open>nullptr\<close> or points to a node that it owns exclusively, so a
  pointer is modelled by the tree it points to: \<open>Null\<close> is \<open>nullptr\<close>, and the fields
  of \<open>struct Node\<close> keep their order (key, npl, left, right).

  The C++ \<open>int\<close> fields are modelled by \<open>int\<close>. Keys are only ever compared, and the
  only arithmetic is \<open>getNPL(h1->right) + 1\<close>; on a leftist tree the stored npl is
  the null path length (lemma \<open>getNPL_NPL\<close>), which is logarithmic in the number of
  nodes (lemma \<open>npl_size_bound\<close>), far from the 32-bit range.
\<close>

datatype node = Null | Node (key: int) (npl: int) (left: node) (right: node)

text \<open>The constructor \<open>Node(int k) : key(k), npl(0), left(nullptr), right(nullptr)\<close>.\<close>

definition new_Node :: "int \<Rightarrow> node" where
  "new_Node k = Node k 0 Null Null"

fun getNPL :: "node \<Rightarrow> int" where
  "getNPL Null = -1"
| "getNPL (Node k n l r) = n"

fun swapChildren :: "node \<Rightarrow> node" where
  "swapChildren Null = Null"
| "swapChildren (Node k n l r) = Node k n r l"

text \<open>The two field assignments of \<open>merge\<close>: \<open>h1->right = x\<close> and \<open>h1->npl = x\<close>.\<close>

fun set_right :: "node \<Rightarrow> node \<Rightarrow> node" where
  "set_right Null x = Null"
| "set_right (Node k n l r) x = Node k n l x"

fun set_npl :: "node \<Rightarrow> int \<Rightarrow> node" where
  "set_npl Null x = Null"
| "set_npl (Node k n l r) x = Node k x l r"

text \<open>The number of nodes on the right spine: the measure of the recursion of \<open>merge\<close>.\<close>

fun rspine :: "node \<Rightarrow> nat" where
  "rspine Null = 0"
| "rspine (Node k n l r) = Suc (rspine r)"

lemma rspine_right: "h \<noteq> Null \<Longrightarrow> rspine (right h) < rspine h"
  by (cases h) simp_all

subsection \<open>merge\<close>

text \<open>
  \<open>merge\<close> as it is written: the two null tests, the swap of the local pointers
  \<open>h1\<close> and \<open>h2\<close> when \<open>h1->key > h2->key\<close>, the recursive call on \<open>h1->right\<close>,
  the swap of the children when \<open>getNPL(h1->left) < getNPL(h1->right)\<close>, and the
  update of \<open>h1->npl\<close>. The recursion is well-founded on the sum of the lengths of
  the two right spines.
\<close>

function merge :: "node \<Rightarrow> node \<Rightarrow> node" where
  "merge h1 h2 =
    (if h1 = Null then h2
     else if h2 = Null then h1
     else
       let (h1, h2) = (if key h1 > key h2 then (h2, h1) else (h1, h2));
           h1 = set_right h1 (merge (right h1) h2);
           h1 = (if getNPL (left h1) < getNPL (right h1) then swapChildren h1 else h1);
           h1 = set_npl h1 (getNPL (right h1) + 1)
       in h1)"
  by pat_completeness auto
termination
  by (relation "measure (\<lambda>(h1, h2). rspine h1 + rspine h2)")
    (auto split: if_splits simp: rspine_right)

declare merge.simps [simp del]

text \<open>
  The same control flow, returning beside the result the depth of the recursion: the
  number of nested recursive calls below the outermost one.
\<close>

function merge_traced :: "node \<Rightarrow> node \<Rightarrow> node \<times> nat" where
  "merge_traced h1 h2 =
    (if h1 = Null then (h2, 0)
     else if h2 = Null then (h1, 0)
     else
       let (h1, h2) = (if key h1 > key h2 then (h2, h1) else (h1, h2));
           (m, d) = merge_traced (right h1) h2;
           h1 = set_right h1 m;
           h1 = (if getNPL (left h1) < getNPL (right h1) then swapChildren h1 else h1);
           h1 = set_npl h1 (getNPL (right h1) + 1)
       in (h1, Suc d))"
  by pat_completeness auto
termination
  by (relation "measure (\<lambda>(h1, h2). rspine h1 + rspine h2)")
    (auto split: if_splits simp: rspine_right)

declare merge_traced.simps [simp del]

text \<open>The number of nodes of a tree: the element count of a heap.\<close>

fun count :: "node \<Rightarrow> nat" where
  "count Null = 0"
| "count (Node k n l r) = Suc (count l + count r)"

subsection \<open>The class LeftistTree\<close>

record LeftistTree =
  root :: node

text \<open>The constructor \<open>LeftistTree() : root(nullptr)\<close>.\<close>

definition new_LeftistTree :: LeftistTree where
  "new_LeftistTree = \<lparr>root = Null\<rparr>"

definition isEmpty :: "LeftistTree \<Rightarrow> bool" where
  "isEmpty t = (root t = Null)"

definition insert_heap :: "int \<Rightarrow> LeftistTree \<Rightarrow> LeftistTree" where
  "insert_heap k t = (let newNode = new_Node k in t\<lparr>root := merge (root t) newNode\<rparr>)"

text \<open>
  A thrown \<open>runtime_error\<close> carries its message. A method that can throw returns the
  outcome together with the state of the object after the call.
\<close>

datatype error = runtime_error string

definition getMin :: "LeftistTree \<Rightarrow> (error + int) \<times> LeftistTree" where
  "getMin t =
    (if isEmpty t then (Inl (runtime_error ''Heap is empty!''), t)
     else (Inr (key (root t)), t))"

definition extractMin :: "LeftistTree \<Rightarrow> (error + int) \<times> LeftistTree" where
  "extractMin t =
    (if isEmpty t then (Inl (runtime_error ''Heap is empty! Cannot extract min.''), t)
     else
       let minKey = key (root t);
           t = t\<lparr>root := merge (left (root t)) (right (root t))\<rparr>
       in (Inr minKey, t))"

text \<open>
  \<open>mergeWith\<close> compares the addresses of two objects, so it is modelled on a store of
  \<open>LeftistTree\<close> objects indexed by address; \<open>this\<close> and \<open>otherTree\<close> are addresses.
\<close>

type_synonym heaps = "nat \<Rightarrow> LeftistTree"

definition mergeWith :: "nat \<Rightarrow> nat \<Rightarrow> heaps \<Rightarrow> heaps" where
  "mergeWith this otherTree s =
    (if this = otherTree then s
     else
       let s = s(this := (s this)\<lparr>root := merge (root (s this)) (root (s otherTree))\<rparr>);
           s = s(otherTree := (s otherTree)\<lparr>root := Null\<rparr>)
       in s)"

subsection \<open>The callers' loops\<close>

text \<open>A sequence of \<open>insert\<close> calls, in the order of the list.\<close>

fun insert_all :: "int list \<Rightarrow> LeftistTree \<Rightarrow> LeftistTree" where
  "insert_all [] t = t"
| "insert_all (k # ks) t = insert_all ks (insert_heap k t)"

text \<open>
  A caller is a sequence of calls of the public methods on the heaps of a store. The
  outcome of a call is dropped here: a caller may catch the exception of \<open>getMin\<close>
  or \<open>extractMin\<close> and go on, as the tests do.
\<close>

datatype call = Insert nat int | GetMin nat | ExtractMin nat | MergeWith nat nat

fun exec :: "call \<Rightarrow> heaps \<Rightarrow> heaps" where
  "exec (Insert a k) s = s(a := insert_heap k (s a))"
| "exec (GetMin a) s = s(a := snd (getMin (s a)))"
| "exec (ExtractMin a) s = s(a := snd (extractMin (s a)))"
| "exec (MergeWith a b) s = mergeWith a b s"

fun run :: "call list \<Rightarrow> heaps \<Rightarrow> heaps" where
  "run [] s = s"
| "run (c # cs) s = run cs (exec c s)"

text \<open>The store of a program that has constructed its heaps and called nothing yet.\<close>

definition new_heaps :: heaps where
  "new_heaps = (\<lambda>a. new_LeftistTree)"

subsection \<open>Elements and invariants\<close>

text \<open>The multiset of the keys stored in a tree.\<close>

fun keys :: "node \<Rightarrow> int multiset" where
  "keys Null = {#}"
| "keys (Node k n l r) = add_mset k (keys l + keys r)"

text \<open>
  The null path length of a tree as the data model defines it: the length of the
  shortest path from the root to an absent child, \<open>-1\<close> for an absent node. It is
  computed from the shape alone, not read from the \<open>npl\<close> fields.
\<close>

fun NPL :: "node \<Rightarrow> int" where
  "NPL Null = -1"
| "NPL (Node k n l r) = min (NPL l) (NPL r) + 1"

text \<open>\<open>root_ge k h\<close>: if the child \<open>h\<close> is present, its key is at least \<open>k\<close>.\<close>

fun root_ge :: "int \<Rightarrow> node \<Rightarrow> bool" where
  "root_ge k Null = True"
| "root_ge k (Node k' n l r) = (k \<le> k')"

fun heap_order :: "node \<Rightarrow> bool" where
  "heap_order Null = True"
| "heap_order (Node k n l r) = (root_ge k l \<and> root_ge k r \<and> heap_order l \<and> heap_order r)"

fun leftist :: "node \<Rightarrow> bool" where
  "leftist Null = True"
| "leftist (Node k n l r) = (NPL l \<ge> NPL r \<and> leftist l \<and> leftist r)"

fun npl_stored :: "node \<Rightarrow> bool" where
  "npl_stored Null = True"
| "npl_stored (Node k n l r) = (n = NPL r + 1 \<and> npl_stored l \<and> npl_stored r)"

subsection \<open>Equations of merge\<close>

text \<open>
  The last three steps of \<open>merge\<close> on a root with key \<open>k\<close>, left child \<open>l\<close> and the
  merged right child \<open>r\<close>: swap the children if the left one has the smaller stored
  npl, then store the npl of the right child plus one.
\<close>

definition relink :: "int \<Rightarrow> node \<Rightarrow> node \<Rightarrow> node" where
  "relink k l r =
    (if getNPL l < getNPL r then Node k (getNPL l + 1) r l else Node k (getNPL r + 1) l r)"

lemma merge_Null_left [simp]: "merge Null h2 = h2"
  by (simp add: merge.simps)

lemma merge_Null_right [simp]: "merge h1 Null = h1"
  by (simp add: merge.simps)

lemma merge_Node:
  "merge (Node k1 n1 l1 r1) (Node k2 n2 l2 r2) =
    (if k1 > k2 then relink k2 l2 (merge r2 (Node k1 n1 l1 r1))
     else relink k1 l1 (merge r1 (Node k2 n2 l2 r2)))"
  by (subst merge.simps) (simp add: relink_def Let_def)

lemma merge_induct [case_names Null_left Null_right Node]:
  assumes "\<And>h2. P Null h2"
    and "\<And>h1. P h1 Null"
    and "\<And>k1 n1 l1 r1 k2 n2 l2 r2.
          (k1 > k2 \<Longrightarrow> P r2 (Node k1 n1 l1 r1)) \<Longrightarrow>
          (\<not> k1 > k2 \<Longrightarrow> P r1 (Node k2 n2 l2 r2)) \<Longrightarrow>
          P (Node k1 n1 l1 r1) (Node k2 n2 l2 r2)"
  shows "P h1 h2"
proof (induction h1 h2 rule: merge.induct)
  case (1 h1 h2)
  show ?case
  proof (cases h1)
    case Null
    then show ?thesis by (simp add: assms(1))
  next
    case a: (Node k1 n1 l1 r1)
    show ?thesis
    proof (cases h2)
      case Null
      then show ?thesis by (simp add: assms(2))
    next
      case b: (Node k2 n2 l2 r2)
      have gt: "k1 > k2 \<Longrightarrow> P r2 (Node k1 n1 l1 r1)"
        using "1.IH" [of "(h2, h1)" h2 h1] a b by simp
      have le: "\<not> k1 > k2 \<Longrightarrow> P r1 (Node k2 n2 l2 r2)"
        using "1.IH" [of "(h1, h2)" h1 h2] a b by simp
      show ?thesis unfolding a b by (rule assms(3) [OF gt le])
    qed
  qed
qed

lemma count_relink [simp]: "count (relink k l r) = Suc (count l + count r)"
  by (simp add: relink_def)

lemma count_merge: "count (merge h1 h2) = count h1 + count h2"
  by (induction h1 h2 rule: merge_induct) (simp_all add: merge_Node)

lemma count_extractMin:
  "\<not> isEmpty t \<Longrightarrow> Suc (count (root (snd (extractMin t)))) = count (root t)"
  by (cases "root t") (simp_all add: extractMin_def isEmpty_def count_merge)

subsection \<open>The drain loop\<close>

text \<open>
  The loop \<open>while (!lt.isEmpty()) v.push_back(lt.extractMin());\<close> of the tests, on
  the heap and the vector. An exception of \<open>extractMin\<close> would leave the loop.
\<close>

function drain :: "LeftistTree \<Rightarrow> int list \<Rightarrow> (error + int list) \<times> LeftistTree" where
  "drain t v =
    (if isEmpty t then (Inr v, t)
     else
       let (res, t) = extractMin t
       in case res of
            Inl e \<Rightarrow> (Inl e, t)
          | Inr k \<Rightarrow> drain t (v @ [k]))"
  by pat_completeness auto
termination
proof (relation "measure (\<lambda>(t, v). count (root t))")
  show "wf (measure (\<lambda>(t, v). count (root t)))" by simp
next
  fix t :: LeftistTree and v :: "int list" and x res t' k
  assume "\<not> isEmpty t" and "x = extractMin t" and "(res, t') = x" and "res = Inr k"
  then have "t' = snd (extractMin t)" by (metis snd_conv)
  with count_extractMin [OF \<open>\<not> isEmpty t\<close>]
  show "((t', v @ [k]), (t, v)) \<in> measure (\<lambda>(t, v). count (root t))" by simp
qed

declare drain.simps [simp del]

subsection \<open>merge keeps the elements\<close>

lemma keys_relink [simp]: "keys (relink k l r) = add_mset k (keys l + keys r)"
  by (simp add: relink_def)

lemma keys_merge: "keys (merge h1 h2) = keys h1 + keys h2"
  by (induction h1 h2 rule: merge_induct) (simp_all add: merge_Node)

lemma size_keys: "size (keys h) = count h"
  by (induction h) simp_all

subsection \<open>merge keeps the leftist shape\<close>

lemma getNPL_NPL: "leftist h \<Longrightarrow> npl_stored h \<Longrightarrow> getNPL h = NPL h"
  by (cases h) simp_all

lemma leftist_relink:
  assumes "leftist l" "npl_stored l" "leftist r" "npl_stored r"
  shows "leftist (relink k l r) \<and> npl_stored (relink k l r)"
  using assms getNPL_NPL [of l] getNPL_NPL [of r] by (simp add: relink_def)

lemma leftist_merge:
  "leftist h1 \<Longrightarrow> npl_stored h1 \<Longrightarrow> leftist h2 \<Longrightarrow> npl_stored h2 \<Longrightarrow>
   leftist (merge h1 h2) \<and> npl_stored (merge h1 h2)"
proof (induction h1 h2 rule: merge_induct)
  case (Node k1 n1 l1 r1 k2 n2 l2 r2)
  show ?case
  proof (cases "k1 > k2")
    case True
    with Node have "leftist (merge r2 (Node k1 n1 l1 r1)) \<and> npl_stored (merge r2 (Node k1 n1 l1 r1))"
      by simp
    with Node.prems True show ?thesis
      by (simp add: merge_Node leftist_relink)
  next
    case False
    with Node have "leftist (merge r1 (Node k2 n2 l2 r2)) \<and> npl_stored (merge r1 (Node k2 n2 l2 r2))"
      by simp
    with Node.prems False show ?thesis
      by (simp add: merge_Node leftist_relink)
  qed
qed simp_all

lemma NPL_ge: "- 1 \<le> NPL h"
  by (induction h) simp_all

lemma npl_size_bound: "2 ^ nat (NPL h + 1) \<le> count h + 1"
proof (induction h)
  case Null
  show ?case by simp
next
  case (Node k n l r)
  let ?m = "min (NPL l) (NPL r)"
  have m: "- 1 \<le> ?m" using NPL_ge [of l] NPL_ge [of r] by simp
  have "(2::nat) ^ nat (?m + 1) \<le> 2 ^ nat (NPL l + 1)"
    by (rule power_increasing) simp_all
  with Node.IH(1) have l: "(2::nat) ^ nat (?m + 1) \<le> count l + 1" by linarith
  have "(2::nat) ^ nat (?m + 1) \<le> 2 ^ nat (NPL r + 1)"
    by (rule power_increasing) simp_all
  with Node.IH(2) have r: "(2::nat) ^ nat (?m + 1) \<le> count r + 1" by linarith
  have "nat (?m + 1 + 1) = Suc (nat (?m + 1))" using m by linarith
  then have "(2::nat) ^ nat (NPL (Node k n l r) + 1) = 2 ^ nat (?m + 1) + 2 ^ nat (?m + 1)"
    by simp
  also have "\<dots> \<le> (count l + 1) + (count r + 1)" using l r by (rule add_mono)
  also have "\<dots> = count (Node k n l r) + 1" by simp
  finally show ?case .
qed

subsection \<open>merge keeps the heap order\<close>

lemma root_ge_relink [simp]: "root_ge k (relink k' l r) = (k \<le> k')"
  by (simp add: relink_def)

lemma root_ge_merge: "root_ge k h1 \<Longrightarrow> root_ge k h2 \<Longrightarrow> root_ge k (merge h1 h2)"
  by (cases h1; cases h2) (simp_all add: merge_Node)

lemma heap_order_relink [simp]:
  "heap_order (relink k l r) = (root_ge k l \<and> root_ge k r \<and> heap_order l \<and> heap_order r)"
  by (auto simp add: relink_def)

lemma heap_order_merge: "heap_order h1 \<Longrightarrow> heap_order h2 \<Longrightarrow> heap_order (merge h1 h2)"
proof (induction h1 h2 rule: merge_induct)
  case (Node k1 n1 l1 r1 k2 n2 l2 r2)
  show ?case
  proof (cases "k1 > k2")
    case True
    with Node have "heap_order (merge r2 (Node k1 n1 l1 r1))" by simp
    moreover have "root_ge k2 (merge r2 (Node k1 n1 l1 r1))"
      using Node.prems True by (intro root_ge_merge) simp_all
    ultimately show ?thesis using Node.prems True by (simp add: merge_Node)
  next
    case False
    with Node have "heap_order (merge r1 (Node k2 n2 l2 r2))" by simp
    moreover have "root_ge k1 (merge r1 (Node k2 n2 l2 r2))"
      using Node.prems False by (intro root_ge_merge) simp_all
    ultimately show ?thesis using Node.prems False by (simp add: merge_Node)
  qed
qed simp_all

lemma root_ge_trans: "root_ge k h \<Longrightarrow> k' \<le> k \<Longrightarrow> root_ge k' h"
  by (cases h) simp_all

lemma heap_order_root_min: "heap_order h \<Longrightarrow> x \<in># keys h \<Longrightarrow> root_ge x' h \<Longrightarrow> x' \<le> x"
proof (induction h arbitrary: x')
  case Null
  then show ?case by simp
next
  case (Node k n l r)
  from Node.prems have "x = k \<or> x \<in># keys l \<or> x \<in># keys r" by auto
  then show ?case
  proof (elim disjE)
    assume "x = k"
    with Node.prems show ?thesis by simp
  next
    assume "x \<in># keys l"
    moreover have "root_ge x' l" using Node.prems by (auto intro: root_ge_trans)
    ultimately show ?thesis using Node.IH(1) Node.prems by simp
  next
    assume "x \<in># keys r"
    moreover have "root_ge x' r" using Node.prems by (auto intro: root_ge_trans)
    ultimately show ?thesis using Node.IH(2) Node.prems by simp
  qed
qed

subsection \<open>The recursion depth of merge\<close>

lemma merge_traced_Null_left [simp]: "merge_traced Null h2 = (h2, 0)"
  by (simp add: merge_traced.simps)

lemma merge_traced_Null_right [simp]: "merge_traced h1 Null = (h1, 0)"
  by (simp add: merge_traced.simps)

lemma merge_traced_Node:
  "merge_traced (Node k1 n1 l1 r1) (Node k2 n2 l2 r2) =
    (if k1 > k2
     then (relink k2 l2 (fst (merge_traced r2 (Node k1 n1 l1 r1))),
           Suc (snd (merge_traced r2 (Node k1 n1 l1 r1))))
     else (relink k1 l1 (fst (merge_traced r1 (Node k2 n2 l2 r2))),
           Suc (snd (merge_traced r1 (Node k2 n2 l2 r2)))))"
  by (subst merge_traced.simps) (simp add: relink_def Let_def split: prod.splits)

lemma fst_merge_traced: "fst (merge_traced h1 h2) = merge h1 h2"
  by (induction h1 h2 rule: merge_induct) (simp_all add: merge_Node merge_traced_Node)

lemma snd_merge_traced: "snd (merge_traced h1 h2) \<le> rspine h1 + rspine h2"
  by (induction h1 h2 rule: merge_induct) (auto simp add: merge_traced_Node add.commute)

subsection \<open>The operations of the class\<close>

lemma invariants_new_Node:
  "heap_order (new_Node k) \<and> leftist (new_Node k) \<and> npl_stored (new_Node k)"
  by (simp add: new_Node_def)

lemma root_insert_heap: "root (insert_heap k t) = merge (root t) (new_Node k)"
  by (simp add: insert_heap_def)

lemma keys_insert_heap: "keys (root (insert_heap k t)) = add_mset k (keys (root t))"
  by (simp add: root_insert_heap keys_merge new_Node_def)

lemma heap_order_insert_heap: "heap_order (root t) \<Longrightarrow> heap_order (root (insert_heap k t))"
  by (simp add: root_insert_heap heap_order_merge invariants_new_Node)

lemma leftist_insert_heap:
  "leftist (root t) \<Longrightarrow> npl_stored (root t) \<Longrightarrow>
   leftist (root (insert_heap k t)) \<and> npl_stored (root (insert_heap k t))"
  by (simp add: root_insert_heap leftist_merge invariants_new_Node)

lemma extractMin_empty:
  "isEmpty t \<Longrightarrow> extractMin t = (Inl (runtime_error ''Heap is empty! Cannot extract min.''), t)"
  by (simp add: extractMin_def)

lemma extractMin_Node:
  "root t = Node k n l r \<Longrightarrow> extractMin t = (Inr k, t\<lparr>root := merge l r\<rparr>)"
  by (simp add: extractMin_def isEmpty_def)

lemma heap_order_extractMin:
  "heap_order (root t) \<Longrightarrow> heap_order (root (snd (extractMin t)))"
  by (cases "root t") (simp_all add: extractMin_Node extractMin_empty isEmpty_def heap_order_merge)

lemma leftist_extractMin:
  "leftist (root t) \<Longrightarrow> npl_stored (root t) \<Longrightarrow>
   leftist (root (snd (extractMin t))) \<and> npl_stored (root (snd (extractMin t)))"
  by (cases "root t") (simp_all add: extractMin_Node extractMin_empty isEmpty_def leftist_merge)

lemma heap_order_least:
  assumes "heap_order (Node k n l r)" and "x \<in># keys (Node k n l r)"
  shows "k \<le> x"
  using heap_order_root_min [OF assms, of k] by simp

lemma sorted_list_of_keys_Node:
  assumes "heap_order (Node k n l r)"
  shows "sorted_list_of_multiset (keys (Node k n l r)) =
    k # sorted_list_of_multiset (keys (merge l r))"
proof -
  have "\<forall>x \<in> set (sorted_list_of_multiset (keys l + keys r)). k \<le> x"
    using heap_order_least [OF assms] by simp
  then have "insort k (sorted_list_of_multiset (keys l + keys r)) =
    k # sorted_list_of_multiset (keys l + keys r)"
    by (intro insort_is_Cons) simp
  then show ?thesis by (simp add: keys_merge)
qed

lemma empty_LeftistTree: "isEmpty t \<Longrightarrow> t = new_LeftistTree"
  by (simp add: isEmpty_def new_LeftistTree_def)

lemma drain_sorted:
  "heap_order (root t) \<Longrightarrow>
   drain t v = (Inr (v @ sorted_list_of_multiset (keys (root t))), new_LeftistTree)"
proof (induction t v rule: drain.induct)
  case (1 t v)
  show ?case
  proof (cases "isEmpty t")
    case True
    then have "drain t v = (Inr v, t)" by (subst drain.simps) simp
    with True show ?thesis by (simp add: empty_LeftistTree isEmpty_def)
  next
    case False
    then obtain k n l r where rt: "root t = Node k n l r"
      by (cases "root t") (simp_all add: isEmpty_def)
    let ?t' = "t\<lparr>root := merge l r\<rparr>"
    have ex: "extractMin t = (Inr k, ?t')" by (rule extractMin_Node [OF rt])
    have ho: "heap_order (root ?t')" using "1.prems" rt by (simp add: heap_order_merge)
    have "drain t v = drain ?t' (v @ [k])"
      using False ex by (subst drain.simps) simp
    also have "\<dots> = (Inr ((v @ [k]) @ sorted_list_of_multiset (keys (root ?t'))), new_LeftistTree)"
      by (rule "1.IH" [OF False refl ex [symmetric] refl ho])
    also have "(v @ [k]) @ sorted_list_of_multiset (keys (root ?t')) =
      v @ sorted_list_of_multiset (keys (root t))"
      using sorted_list_of_keys_Node [of k n l r] "1.prems" rt by simp
    finally show ?thesis .
  qed
qed

lemma keys_insert_all: "keys (root (insert_all ks t)) = keys (root t) + mset ks"
  by (induction ks arbitrary: t) (simp_all add: keys_insert_heap)

lemma heap_order_insert_all: "heap_order (root t) \<Longrightarrow> heap_order (root (insert_all ks t))"
  by (induction ks arbitrary: t) (simp_all add: heap_order_insert_heap)

lemma getMin_state: "snd (getMin t) = t"
  by (simp add: getMin_def)

lemma exec_invariants:
  assumes "\<And>a. heap_order (root (s a)) \<and> leftist (root (s a)) \<and> npl_stored (root (s a))"
  shows "heap_order (root (exec c s a)) \<and> leftist (root (exec c s a)) \<and>
    npl_stored (root (exec c s a))"
proof (cases c)
  case (Insert b k)
  then show ?thesis using assms by (simp add: heap_order_insert_heap leftist_insert_heap)
next
  case (GetMin b)
  then show ?thesis using assms by (simp add: getMin_state)
next
  case (ExtractMin b)
  then show ?thesis using assms by (simp add: heap_order_extractMin leftist_extractMin)
next
  case (MergeWith b b')
  then show ?thesis
    using assms by (simp add: mergeWith_def Let_def heap_order_merge leftist_merge)
qed

lemma run_invariants:
  "(\<And>a. heap_order (root (s a)) \<and> leftist (root (s a)) \<and> npl_stored (root (s a))) \<Longrightarrow>
   heap_order (root (run cs s a)) \<and> leftist (root (run cs s a)) \<and>
   npl_stored (root (run cs s a))"
proof (induction cs arbitrary: s)
  case Nil
  then show ?case by simp
next
  case (Cons c cs)
  show ?case
    unfolding run.simps
    by (rule Cons.IH) (rule exec_invariants, rule Cons.prems)
qed

section \<open>The claims\<close>

text \<open>
  Claim C1. For every list \<open>xs\<close> of keys (a finite multiset in some order),
  inserting its elements one after the other into a new heap and then calling
  \<open>extractMin\<close> until \<open>isEmpty\<close> holds never throws, yields the list \<open>sort xs\<close>,
  the sorted list of the multiset of \<open>xs\<close> whatever the order of insertion, and
  leaves the heap empty.
\<close>

theorem sorted_extraction:
  "drain (insert_all xs new_LeftistTree) [] = (Inr (sort xs), new_LeftistTree) \<and>
   sort xs = sorted_list_of_multiset (mset xs)"
proof -
  have "heap_order (root (insert_all xs new_LeftistTree))"
    by (rule heap_order_insert_all) (simp add: new_LeftistTree_def)
  then have "drain (insert_all xs new_LeftistTree) [] =
    (Inr ([] @ sorted_list_of_multiset (keys (root (insert_all xs new_LeftistTree)))),
     new_LeftistTree)"
    by (rule drain_sorted)
  then show ?thesis
    by (simp add: keys_insert_all new_LeftistTree_def)
qed

theorem sorted_extraction_witness:
  "drain (insert_all [10, 5, 20, 5] new_LeftistTree) [] = (Inr [5, 5, 10, 20], new_LeftistTree)"
  using sorted_extraction [of "[10, 5, 20, 5]"] by simp

text \<open>
  Claim C2. For all trees \<open>h1\<close> and \<open>h2\<close> that are heap-ordered and leftist with
  exact \<open>npl\<close> fields (either may be \<open>Null\<close>), \<open>merge h1 h2\<close> is again heap-ordered
  and leftist with exact \<open>npl\<close> fields, and its multiset of keys is the multiset
  union of the keys of \<open>h1\<close> and \<open>h2\<close>: duplicates are kept and nothing is lost.
\<close>

theorem merge_leftist_heap:
  assumes "heap_order h1" "leftist h1" "npl_stored h1"
    and "heap_order h2" "leftist h2" "npl_stored h2"
  shows "heap_order (merge h1 h2) \<and> leftist (merge h1 h2) \<and> npl_stored (merge h1 h2) \<and>
    keys (merge h1 h2) = keys h1 + keys h2"
  using assms by (simp add: heap_order_merge leftist_merge keys_merge)

theorem merge_leftist_heap_witness:
  "heap_order (Node 5 0 (Node 10 0 Null Null) Null) \<and>
   leftist (Node 5 0 (Node 10 0 Null Null) Null) \<and>
   npl_stored (Node 5 0 (Node 10 0 Null Null) Null) \<and>
   heap_order (Node 5 1 (Node 8 0 Null Null) (Node 15 0 Null Null)) \<and>
   leftist (Node 5 1 (Node 8 0 Null Null) (Node 15 0 Null Null)) \<and>
   npl_stored (Node 5 1 (Node 8 0 Null Null) (Node 15 0 Null Null)) \<and>
   heap_order (merge (Node 5 0 (Node 10 0 Null Null) Null)
     (Node 5 1 (Node 8 0 Null Null) (Node 15 0 Null Null))) \<and>
   leftist (merge (Node 5 0 (Node 10 0 Null Null) Null)
     (Node 5 1 (Node 8 0 Null Null) (Node 15 0 Null Null))) \<and>
   npl_stored (merge (Node 5 0 (Node 10 0 Null Null) Null)
     (Node 5 1 (Node 8 0 Null Null) (Node 15 0 Null Null))) \<and>
   keys (merge (Node 5 0 (Node 10 0 Null Null) Null)
     (Node 5 1 (Node 8 0 Null Null) (Node 15 0 Null Null))) = {#5, 10, 5, 8, 15#}"
proof -
  have a: "heap_order (Node 5 0 (Node 10 0 Null Null) Null)"
    "leftist (Node 5 0 (Node 10 0 Null Null) Null)"
    "npl_stored (Node 5 0 (Node 10 0 Null Null) Null)"
    by simp_all
  have b: "heap_order (Node 5 1 (Node 8 0 Null Null) (Node 15 0 Null Null))"
    "leftist (Node 5 1 (Node 8 0 Null Null) (Node 15 0 Null Null))"
    "npl_stored (Node 5 1 (Node 8 0 Null Null) (Node 15 0 Null Null))"
    by simp_all
  show ?thesis using a b merge_leftist_heap [OF a b] by simp
qed

text \<open>
  Claim C9. \<open>merge\<close> terminates on every pair of trees: it is defined above by
  well-founded recursion on the sum of the right-spine lengths, each recursive call
  replacing one of the two trees by its right child. \<open>merge_traced\<close>, the same
  recursion with a counter, returns the result of \<open>merge\<close>, and its recursion depth
  is at most the sum of the right-spine lengths of the two inputs.
\<close>

theorem merge_depth_bound:
  "fst (merge_traced h1 h2) = merge h1 h2 \<and>
   snd (merge_traced h1 h2) \<le> rspine h1 + rspine h2"
  by (simp add: fst_merge_traced snd_merge_traced)

text \<open>
  Claim C10. The result of \<open>merge\<close> is a function of its two inputs, and the tie is
  broken for the first operand: when the first root's key is at most the second's (so
  also when they are equal), the result is the first root, with its own left child and
  with \<open>merge\<close> of its right child and the whole second tree, relinked; the operands
  change roles only when the first key is strictly greater.
\<close>

theorem merge_tie_break:
  "(k1 \<le> k2 \<longrightarrow>
      merge (Node k1 n1 l1 r1) (Node k2 n2 l2 r2) =
        relink k1 l1 (merge r1 (Node k2 n2 l2 r2))) \<and>
   (k1 > k2 \<longrightarrow>
      merge (Node k1 n1 l1 r1) (Node k2 n2 l2 r2) =
        relink k2 l2 (merge r2 (Node k1 n1 l1 r1)))"
  by (simp add: merge_Node)

text \<open>
  At a tie the order of the operands shows in the shape of the result: the first
  operand's left child stays a child of the root.
\<close>

theorem merge_tie_break_witness:
  "(1::int) \<le> 1 \<and>
   merge (Node 1 0 (Node 2 0 Null Null) Null) (Node 1 0 Null Null) =
     Node 1 1 (Node 2 0 Null Null) (Node 1 0 Null Null) \<and>
   merge (Node 1 0 Null Null) (Node 1 0 (Node 2 0 Null Null) Null) =
     Node 1 0 (Node 1 0 (Node 2 0 Null Null) Null) Null"
  using merge_tie_break [of 1 1 0 "Node 2 0 Null Null" Null 0 Null Null]
    merge_tie_break [of 1 1 0 Null Null 0 "Node 2 0 Null Null" Null]
  by (simp add: relink_def)

text \<open>
  Claim C3. After any sequence of calls of \<open>insert\<close>, \<open>getMin\<close>, \<open>extractMin\<close>
  and \<open>mergeWith\<close> on heaps that were constructed empty, every heap is heap-ordered
  (each node's key is at most the key of each present child), leftist (at each node
  the null path length of the left child is at least that of the right child) and has
  exact \<open>npl\<close> fields (each node stores the null path length of its right child plus
  one, an absent child counting \<open>-1\<close>).
\<close>

theorem reachable_invariants:
  "heap_order (root (run cs new_heaps a)) \<and> leftist (root (run cs new_heaps a)) \<and>
   npl_stored (root (run cs new_heaps a))"
  by (rule run_invariants) (simp add: new_heaps_def new_LeftistTree_def)

theorem reachable_invariants_witness:
  "root (run [Insert 0 7, Insert 1 5, Insert 1 9, MergeWith 0 1, ExtractMin 0] new_heaps 0) =
     Node 7 0 (Node 9 0 Null Null) Null \<and>
   heap_order (Node 7 0 (Node 9 0 Null Null) Null) \<and>
   leftist (Node 7 0 (Node 9 0 Null Null) Null) \<and>
   npl_stored (Node 7 0 (Node 9 0 Null Null) Null)"
  using reachable_invariants
    [of "[Insert 0 7, Insert 1 5, Insert 1 9, MergeWith 0 1, ExtractMin 0]" 0]
  by (simp add: new_heaps_def new_LeftistTree_def insert_heap_def new_Node_def
      mergeWith_def extractMin_def isEmpty_def merge_Node relink_def)

text \<open>
  Claim C4. On every non-empty heap (heap-ordered, as every reachable heap is),
  \<open>extractMin\<close> returns the least of the keys that were in the heap; the keys left
  are the former multiset without one occurrence of the returned key, and the number
  of elements is one less than before.
\<close>

theorem extractMin_minimum:
  assumes "heap_order (root t)" and "\<not> isEmpty t"
  shows "fst (extractMin t) = Inr (Min (set_mset (keys (root t)))) \<and>
    keys (root (snd (extractMin t))) = keys (root t) - {#Min (set_mset (keys (root t)))#} \<and>
    Suc (count (root (snd (extractMin t)))) = count (root t)"
proof -
  from assms(2) obtain k n l r where rt: "root t = Node k n l r"
    by (cases "root t") (simp_all add: isEmpty_def)
  have "\<forall>x \<in> set_mset (keys (root t)). k \<le> x"
    using heap_order_least [of k n l r] assms(1) rt by simp
  moreover have "k \<in> set_mset (keys (root t))" using rt by simp
  ultimately have "Min (set_mset (keys (root t))) = k"
    by (intro Min_eqI) simp_all
  then show ?thesis
    using rt by (simp add: extractMin_Node keys_merge count_merge)
qed

theorem extractMin_minimum_witness:
  "heap_order (root \<lparr>root = Node 5 1 (Node 10 0 Null Null) (Node 20 0 Null Null)\<rparr>) \<and>
   \<not> isEmpty \<lparr>root = Node 5 1 (Node 10 0 Null Null) (Node 20 0 Null Null)\<rparr> \<and>
   fst (extractMin \<lparr>root = Node 5 1 (Node 10 0 Null Null) (Node 20 0 Null Null)\<rparr>) = Inr 5 \<and>
   keys (root (snd (extractMin
     \<lparr>root = Node 5 1 (Node 10 0 Null Null) (Node 20 0 Null Null)\<rparr>))) = {#10, 20#} \<and>
   count (root (snd (extractMin
     \<lparr>root = Node 5 1 (Node 10 0 Null Null) (Node 20 0 Null Null)\<rparr>))) = 2"
proof -
  let ?t = "\<lparr>root = Node 5 1 (Node 10 0 Null Null) (Node 20 0 Null Null)\<rparr>"
  have a: "heap_order (root ?t)" by simp
  have b: "\<not> isEmpty ?t" by (simp add: isEmpty_def)
  show ?thesis using a b extractMin_minimum [OF a b] by simp
qed

text \<open>
  Claim C5. On an empty heap \<open>getMin\<close> and \<open>extractMin\<close> each throw a
  \<open>runtime_error\<close> saying that the heap is empty (an error, not a key), and the heap
  after the failed call is the heap before it, still empty. On a non-empty heap
  \<open>getMin\<close> returns the key of the root and leaves the heap as it was.
\<close>

theorem empty_heap_errors:
  "(isEmpty t \<longrightarrow>
      getMin t = (Inl (runtime_error ''Heap is empty!''), t) \<and>
      extractMin t = (Inl (runtime_error ''Heap is empty! Cannot extract min.''), t) \<and>
      isEmpty (snd (getMin t)) \<and> isEmpty (snd (extractMin t))) \<and>
   (\<not> isEmpty t \<longrightarrow> getMin t = (Inr (key (root t)), t))"
  by (simp add: getMin_def extractMin_def)

theorem empty_heap_errors_witness:
  "isEmpty new_LeftistTree \<and>
   getMin new_LeftistTree = (Inl (runtime_error ''Heap is empty!''), new_LeftistTree) \<and>
   extractMin new_LeftistTree =
     (Inl (runtime_error ''Heap is empty! Cannot extract min.''), new_LeftistTree) \<and>
   \<not> isEmpty \<lparr>root = Node 5 0 Null Null\<rparr> \<and>
   getMin \<lparr>root = Node 5 0 Null Null\<rparr> = (Inr 5, \<lparr>root = Node 5 0 Null Null\<rparr>)"
  using empty_heap_errors [of new_LeftistTree]
    empty_heap_errors [of "\<lparr>root = Node 5 0 Null Null\<rparr>"]
  by (simp add: isEmpty_def new_LeftistTree_def)

text \<open>
  Claim C6. For two distinct heaps \<open>this\<close> and \<open>otherTree\<close>, after
  \<open>this.mergeWith(otherTree)\<close> the keys of \<open>this\<close> are the multiset union of the
  keys of both heaps, so its element count is the sum of the two counts; \<open>otherTree\<close>
  has no element and is in the state of a newly constructed heap, so it can be used
  again: an \<open>insert\<close> into it gives a heap with just that key.
\<close>

theorem mergeWith_distinct:
  assumes "this \<noteq> otherTree"
  shows "count (root (mergeWith this otherTree s this)) =
      count (root (s this)) + count (root (s otherTree)) \<and>
    keys (root (mergeWith this otherTree s this)) =
      keys (root (s this)) + keys (root (s otherTree)) \<and>
    count (root (mergeWith this otherTree s otherTree)) = 0 \<and>
    isEmpty (mergeWith this otherTree s otherTree) \<and>
    mergeWith this otherTree s otherTree = new_LeftistTree \<and>
    keys (root (insert_heap k (mergeWith this otherTree s otherTree))) = {#k#}"
  using assms
  by (simp add: mergeWith_def Let_def count_merge keys_merge isEmpty_def
      new_LeftistTree_def keys_insert_heap)

theorem mergeWith_distinct_witness:
  "(0::nat) \<noteq> 1 \<and>
   count (root (mergeWith 0 1
     (new_heaps(0 := \<lparr>root = Node 5 0 (Node 10 0 Null Null) Null\<rparr>,
        1 := \<lparr>root = Node 8 0 Null Null\<rparr>)) 0)) = 3 \<and>
   keys (root (mergeWith 0 1
     (new_heaps(0 := \<lparr>root = Node 5 0 (Node 10 0 Null Null) Null\<rparr>,
        1 := \<lparr>root = Node 8 0 Null Null\<rparr>)) 0)) = {#5, 10, 8#} \<and>
   isEmpty (mergeWith 0 1
     (new_heaps(0 := \<lparr>root = Node 5 0 (Node 10 0 Null Null) Null\<rparr>,
        1 := \<lparr>root = Node 8 0 Null Null\<rparr>)) 1)"
proof -
  have ne: "(0::nat) \<noteq> 1" by simp
  show ?thesis
    using ne mergeWith_distinct [OF ne,
        of "new_heaps(0 := \<lparr>root = Node 5 0 (Node 10 0 Null Null) Null\<rparr>,
          1 := \<lparr>root = Node 8 0 Null Null\<rparr>)" 0]
    by (simp add: isEmpty_def new_LeftistTree_def)
qed

text \<open>
  Claim C7. \<open>h.mergeWith(h)\<close> changes nothing: the two addresses are equal, the call
  returns before the merge, the store is the one before the call, and so the contents
  of \<open>h\<close> and the sequence that draining it yields are unchanged.
\<close>

theorem mergeWith_self:
  "mergeWith h h s = s \<and>
   keys (root (mergeWith h h s h)) = keys (root (s h)) \<and>
   drain (mergeWith h h s h) [] = drain (s h) []"
  by (simp add: mergeWith_def)

text \<open>
  Claim C8. \<open>insert\<close> has no failing path: for every heap and key it returns the
  heap whose root is \<open>merge\<close> of the former root and a new node with the key, npl
  \<open>0\<close> and no children; the keys of the heap grow by exactly that key and the
  element count by one.
\<close>

theorem insert_heap_adds_one:
  "root (insert_heap k t) = merge (root t) (Node k 0 Null Null) \<and>
   keys (root (insert_heap k t)) = add_mset k (keys (root t)) \<and>
   count (root (insert_heap k t)) = Suc (count (root t))"
  by (simp add: root_insert_heap keys_merge count_merge new_Node_def)

end
